theory Spec2Isabelle
  imports Complex_Main "HOL-Library.Sublist"
begin

section \<open>Python string operations used by the dev loop\<close>

text \<open>
  Text is a list of characters. \<open>sub in s\<close> is \<^const>\<open>sublist\<close>, \<open>s.endswith(x)\<close> is
  \<^const>\<open>suffix\<close>; both come with code equations.
\<close>

definition py_in :: "string \<Rightarrow> string \<Rightarrow> bool" where
  "py_in sub s = sublist sub s"

definition endswith :: "string \<Rightarrow> string \<Rightarrow> bool" where
  "endswith s x = suffix x s"

text \<open>\<open>s.split('\n')\<close>: the pieces between line feeds; an empty text gives one empty piece.\<close>

fun split_nl :: "string \<Rightarrow> string list" where
  "split_nl [] = [[]]"
| "split_nl (c # cs) =
     (if c = CHR 0x0A then [] # split_nl cs
      else (case split_nl cs of [] \<Rightarrow> [[c]] | l # ls \<Rightarrow> (c # l) # ls))"

text \<open>\<open>s.lower()\<close> on the ASCII letters; every other character is kept.\<close>

definition lower_char :: "char \<Rightarrow> char" where
  "lower_char c =
     (let n = (of_char c :: nat) in if 65 \<le> n \<and> n \<le> 90 then char_of (n + 32) else c)"

definition lower :: "string \<Rightarrow> string" where
  "lower s = map lower_char s"

text \<open>The decimal text of a count, as an f-string prints it.\<close>

fun str_nat :: "nat \<Rightarrow> string" where
  "str_nat n = (if n < 10 then [char_of (48 + n)] else str_nat (n div 10) @ [char_of (48 + n mod 10)])"

declare str_nat.simps [simp del]

section \<open>Error-line excerpt of a failed build\<close>

text \<open>
  Both commands collect
  \<^verbatim>\<open>errors = [line for line in result.stderr.split('\n') if 'error:' in line.lower()]\<close>.
\<close>

definition error_lines :: "string \<Rightarrow> string list" where
  "error_lines stderr = filter (\<lambda>line. py_in ''error:'' (lower line)) (split_nl stderr)"

text \<open>
  \<^verbatim>\<open>raven_dev.py\<close>, lines 101 to 104: what \<open>build_wasm\<close> prints after a failed build.
\<close>

definition dev_error_report :: "string \<Rightarrow> string list" where
  "dev_error_report stderr =
     (let errors = error_lines stderr in
        map (\<lambda>error. ''  '' @ error) (take 5 errors) @
        (if length errors > 5
         then [''  ... and '' @ str_nat (length errors - 5) @ '' more errors'']
         else []))"

text \<open>
  \<^verbatim>\<open>raven_build.py\<close>, lines 61 to 65: what \<open>build_command\<close> prints after a failed build.
  With \<open>--verbose\<close> the output is not captured (\<open>result.stderr\<close> is \<open>None\<close>), so the
  captured text is optional.
\<close>

definition build_command_report :: "bool \<Rightarrow> string option \<Rightarrow> string list" where
  "build_command_report verbose stderr =
     (case stderr of
        None \<Rightarrow> []
      | Some text \<Rightarrow>
          if \<not> verbose \<and> text \<noteq> []
          then map (\<lambda>error. ''  '' @ error) (take 10 (error_lines text))
          else [])"

text \<open>
  The standard error of a build with eleven errors and a warning, and of one with seven
  errors spelt in different letter cases.
\<close>

definition eleven_errors :: string where
  "eleven_errors =
     ''a.swift:1: error: e1'' @ [CHR 0x0A] @
     ''a.swift:2: error: e2'' @ [CHR 0x0A] @
     ''a.swift:3: warning: w'' @ [CHR 0x0A] @
     ''a.swift:4: error: e3'' @ [CHR 0x0A] @
     ''a.swift:5: error: e4'' @ [CHR 0x0A] @
     ''a.swift:6: error: e5'' @ [CHR 0x0A] @
     ''a.swift:7: error: e6'' @ [CHR 0x0A] @
     ''a.swift:8: error: e7'' @ [CHR 0x0A] @
     ''a.swift:9: error: e8'' @ [CHR 0x0A] @
     ''b.swift:1: error: e9'' @ [CHR 0x0A] @
     ''b.swift:2: error: e10'' @ [CHR 0x0A] @
     ''b.swift:3: error: e11'' @ [CHR 0x0A]"

definition seven_errors :: string where
  "seven_errors =
     ''error: 1'' @ [CHR 0x0A] @
     ''Error: 2'' @ [CHR 0x0A] @
     ''note: an error without the colon'' @ [CHR 0x0A] @
     ''ERROR: 3'' @ [CHR 0x0A] @
     ''x: error: 4'' @ [CHR 0x0A] @
     ''fatal eRRoR: 5'' @ [CHR 0x0A] @
     ''error: 6'' @ [CHR 0x0A] @
     ''error: 7''"

section \<open>Build coordinator: \<open>RavenDevServer\<close>\<close>

text \<open>The three fields of the class that the build logic reads and writes.\<close>

record RavenDevServer =
  building :: bool
  build_queued :: bool
  last_wasm_hash :: "string option"

text \<open>
  The server together with what surrounds it: the served artifact \<open>config['wasm_file']\<close>
  (its bytes, \<open>None\<close> when the file is absent) and the threads that are inside
  \<open>build_wasm\<close>, counted by the place they have reached: past the test of line 76 and
  about to run line 77 or line 80, inside the \<open>try\<close> block, or about to run line 134,
  136, 137 or 139 of the \<open>finally\<close> block. \<open>spawned\<close> counts the threads started by line
  139 that have not yet entered \<open>build_wasm\<close>, \<open>builds\<close> the build executions started so
  far.
\<close>

record dev = RavenDevServer +
  wasm_file :: "string option"
  at_77 :: nat
  at_80 :: nat
  in_try :: nat
  at_134 :: nat
  at_136 :: nat
  at_137 :: nat
  at_139 :: nat
  spawned :: nat
  builds :: nat

text \<open>\<open>__init__\<close>: the served directory is whatever it is when the process starts.\<close>

definition RavenDevServer_init :: "string option \<Rightarrow> dev" where
  "RavenDevServer_init served =
     \<lparr>building = False, build_queued = False, last_wasm_hash = None,
      wasm_file = served, at_77 = 0, at_80 = 0, in_try = 0, at_134 = 0, at_136 = 0,
      at_137 = 0, at_139 = 0, spawned = 0, builds = 0\<rparr>"

text \<open>The JSON object of \<open>GET /api/status\<close>; the clock reading is an input.\<close>

record status_json =
  json_building :: bool
  json_wasm_hash :: "string option"
  json_timestamp :: string

definition status :: "dev \<Rightarrow> string \<Rightarrow> status_json" where
  "status d now =
     \<lparr>json_building = building d, json_wasm_hash = last_wasm_hash d, json_timestamp = now\<rparr>"

text \<open>
  What the outside world does during one build: the result of \<open>subprocess.run\<close>, the
  bytes of \<open>config['wasm_src']\<close> once the command has returned, and whether the copy, the
  read for hashing or the \<open>stat\<close> raise.
\<close>

datatype run_result = TimeoutExpired | RunRaised | CompletedProcess int string

record build_io =
  swift_build :: run_result
  wasm_src :: "string option"
  copy2_raises :: bool
  read_raises :: bool
  stat_raises :: bool

datatype io_error = IOError

text \<open>\<open>get_wasm_hash\<close>; the digest function \<open>hashlib.md5(...).hexdigest()\<close> is a parameter.\<close>

definition get_wasm_hash ::
  "(string \<Rightarrow> string) \<Rightarrow> build_io \<Rightarrow> string option \<Rightarrow> io_error + string option" where
  "get_wasm_hash md5 io file =
     (case file of
        None \<Rightarrow> Inr None
      | Some bytes \<Rightarrow> if read_raises io then Inl IOError else Inr (Some (md5 bytes)))"

text \<open>
  The \<open>try\<close> block of \<open>build_wasm\<close> (lines 86 to 132) with its \<open>except\<close> clauses. The
  result is how the block ended, the fingerprint field and the served file afterwards.
\<close>

datatype outcome =
  BuildFailed "string list"
| WasmNotFound
| BuildTimeout
| BuildError
| BuildSuccessful string

fun returns_True :: "outcome \<Rightarrow> bool" where
  "returns_True (BuildSuccessful h) = True"
| "returns_True _ = False"

definition try_build ::
  "(string \<Rightarrow> string) \<Rightarrow> build_io \<Rightarrow> string option \<Rightarrow> string option
     \<Rightarrow> outcome \<times> string option \<times> string option" where
  "try_build md5 io old_hash file =
     (case swift_build io of
        TimeoutExpired \<Rightarrow> (BuildTimeout, old_hash, file)
      | RunRaised \<Rightarrow> (BuildError, old_hash, file)
      | CompletedProcess returncode stderr \<Rightarrow>
          if returncode \<noteq> 0 then (BuildFailed (dev_error_report stderr), old_hash, file)
          else (case wasm_src io of
             None \<Rightarrow> (WasmNotFound, old_hash, file)
           | Some bytes \<Rightarrow>
               if copy2_raises io then (BuildError, old_hash, file)
               else (case get_wasm_hash md5 io (Some bytes) of
                  Inl e \<Rightarrow> (BuildError, old_hash, Some bytes)
                | Inr new_hash \<Rightarrow>
                    if stat_raises io then (BuildError, old_hash, Some bytes)
                    else (case new_hash of
                       None \<Rightarrow> (BuildError, old_hash, Some bytes)
                     | Some h \<Rightarrow> (BuildSuccessful h, Some h, Some bytes)))))"

text \<open>
  The head of \<open>build_wasm\<close>, line by line: the test of line 76 sends the thread to line
  77 or to line 80; line 77 sets the flag and the call returns; line 80 takes the build,
  and the thread goes into the \<open>try\<close> block.
\<close>

definition line_76 :: "dev \<Rightarrow> dev" where
  "line_76 d = (if building d then d\<lparr>at_77 := at_77 d + 1\<rparr> else d\<lparr>at_80 := at_80 d + 1\<rparr>)"

definition line_77 :: "dev \<Rightarrow> dev" where
  "line_77 d = d\<lparr>build_queued := True\<rparr>"

definition line_80 :: "dev \<Rightarrow> dev" where
  "line_80 d = d\<lparr>building := True, in_try := in_try d + 1, builds := builds d + 1\<rparr>"

text \<open>Lines 86 to 132: the thread that took the build leaves the \<open>try\<close> block.\<close>

definition try_block :: "(string \<Rightarrow> string) \<Rightarrow> build_io \<Rightarrow> dev \<Rightarrow> outcome \<times> dev" where
  "try_block md5 io d =
     (case try_build md5 io (last_wasm_hash d) (wasm_file d) of
        (out, hash, file) \<Rightarrow>
          (out, d\<lparr>last_wasm_hash := hash, wasm_file := file, in_try := in_try d - 1\<rparr>))"

text \<open>The \<open>finally\<close> block, line by line.\<close>

definition line_134 :: "dev \<Rightarrow> dev" where
  "line_134 d = d\<lparr>building := False\<rparr>"

definition line_137 :: "dev \<Rightarrow> dev" where
  "line_137 d = d\<lparr>build_queued := False\<rparr>"

definition line_139 :: "dev \<Rightarrow> dev" where
  "line_139 d = d\<lparr>spawned := spawned d + 1\<rparr>"

definition finally_block :: "dev \<Rightarrow> dev" where
  "finally_block d =
     (let d1 = line_134 d in
        if build_queued d1 then line_139 (line_137 d1) else d1)"

text \<open>
  One call of \<open>build_wasm\<close> with nothing else running in between. The result is Python's
  \<open>None\<close> (the call was queued), \<open>False\<close> or \<open>True\<close>.
\<close>

definition build_wasm :: "(string \<Rightarrow> string) \<Rightarrow> build_io \<Rightarrow> dev \<Rightarrow> bool option \<times> dev" where
  "build_wasm md5 io d =
     (if building d then (None, line_77 d)
      else (case try_block md5 io (line_80 d) of
              (out, d2) \<Rightarrow> (Some (returns_True out), finally_block d2)))"

text \<open>
  Several threads call \<open>build_wasm\<close>: the watcher starts one per accepted event (line
  174), the \<open>finally\<close> block starts one per queued request (line 139), and the source
  takes no lock. In an event one thread runs one line: a call from outside or a thread
  started by line 139 runs the test of line 76; a thread that has passed the test runs
  line 77 or line 80; the thread that builds leaves the \<open>try\<close> block as \<open>io\<close> says; a
  thread runs one line of the \<open>finally\<close> block. Other threads may run between any two
  events, also between the test of line 76 and the assignment that follows it.
\<close>

datatype event =
  Call | Follow_up | Line_77 | Line_80 | Try_done build_io
| Line_134 | Line_136 | Line_137 | Line_139

fun step :: "(string \<Rightarrow> string) \<Rightarrow> event \<Rightarrow> dev \<Rightarrow> dev option" where
  "step md5 Call d = Some (line_76 d)"
| "step md5 Follow_up d =
     (if spawned d = 0 then None else Some (line_76 (d\<lparr>spawned := spawned d - 1\<rparr>)))"
| "step md5 Line_77 d =
     (if at_77 d = 0 then None else Some ((line_77 d)\<lparr>at_77 := at_77 d - 1\<rparr>))"
| "step md5 Line_80 d =
     (if at_80 d = 0 then None else Some ((line_80 d)\<lparr>at_80 := at_80 d - 1\<rparr>))"
| "step md5 (Try_done io) d =
     (if in_try d = 0 then None
      else Some ((snd (try_block md5 io d))\<lparr>at_134 := at_134 d + 1\<rparr>))"
| "step md5 Line_134 d =
     (if at_134 d = 0 then None
      else Some ((line_134 d)\<lparr>at_134 := at_134 d - 1, at_136 := at_136 d + 1\<rparr>))"
| "step md5 Line_136 d =
     (if at_136 d = 0 then None
      else if build_queued d then Some (d\<lparr>at_136 := at_136 d - 1, at_137 := at_137 d + 1\<rparr>)
      else Some (d\<lparr>at_136 := at_136 d - 1\<rparr>))"
| "step md5 Line_137 d =
     (if at_137 d = 0 then None
      else Some ((line_137 d)\<lparr>at_137 := at_137 d - 1, at_139 := at_139 d + 1\<rparr>))"
| "step md5 Line_139 d =
     (if at_139 d = 0 then None else Some ((line_139 d)\<lparr>at_139 := at_139 d - 1\<rparr>))"

fun run :: "(string \<Rightarrow> string) \<Rightarrow> event list \<Rightarrow> dev \<Rightarrow> dev option" where
  "run md5 [] d = Some d"
| "run md5 (e # es) d = (case step md5 e d of None \<Rightarrow> None | Some d' \<Rightarrow> run md5 es d')"

text \<open>
  What a lock around lines 76 to 80 would give, as the specification asks of the
  coordinator: the thread that runs the test runs the assignment that follows it before
  any other thread runs. The source has no such lock; these runs are some of its runs.
\<close>

fun step_locked :: "(string \<Rightarrow> string) \<Rightarrow> event \<Rightarrow> dev \<Rightarrow> dev option" where
  "step_locked md5 Call d =
     (case step md5 Call d of
        None \<Rightarrow> None
      | Some d1 \<Rightarrow> step md5 (if building d then Line_77 else Line_80) d1)"
| "step_locked md5 Follow_up d =
     (case step md5 Follow_up d of
        None \<Rightarrow> None
      | Some d1 \<Rightarrow> step md5 (if building d then Line_77 else Line_80) d1)"
| "step_locked md5 Line_77 d = None"
| "step_locked md5 Line_80 d = None"
| "step_locked md5 e d = step md5 e d"

fun run_locked :: "(string \<Rightarrow> string) \<Rightarrow> event list \<Rightarrow> dev \<Rightarrow> dev option" where
  "run_locked md5 [] d = Some d"
| "run_locked md5 (e # es) d =
     (case step_locked md5 e d of None \<Rightarrow> None | Some d' \<Rightarrow> run_locked md5 es d')"

text \<open>Two ways a build can go, for use in examples.\<close>

definition build_succeeds :: "string \<Rightarrow> build_io" where
  "build_succeeds bytes =
     \<lparr>swift_build = CompletedProcess 0 [], wasm_src = Some bytes,
      copy2_raises = False, read_raises = False, stat_raises = False\<rparr>"

definition build_fails :: "int \<Rightarrow> string \<Rightarrow> build_io" where
  "build_fails returncode stderr =
     \<lparr>swift_build = CompletedProcess returncode stderr, wasm_src = None,
      copy2_raises = False, read_raises = False, stat_raises = False\<rparr>"

text \<open>
  States in which the flags agree with the threads: no thread stands between the test
  of line 76 and its assignment, \<open>building\<close> is set exactly while one thread is between
  line 80 and line 134, and while \<open>build_queued\<close> is set some thread has still to reach
  line 137.
\<close>

definition consistent :: "dev \<Rightarrow> bool" where
  "consistent d \<longleftrightarrow>
     at_77 d = 0 \<and> at_80 d = 0 \<and>
     (building d \<longleftrightarrow> in_try d + at_134 d = 1) \<and> in_try d + at_134 d \<le> 1 \<and>
     (build_queued d \<longrightarrow> 1 \<le> in_try d + at_134 d + at_136 d + at_137 d)"

text \<open>No thread is inside \<open>build_wasm\<close> and no started thread is still to arrive.\<close>

definition at_rest :: "dev \<Rightarrow> bool" where
  "at_rest d \<longleftrightarrow>
     at_77 d = 0 \<and> at_80 d = 0 \<and> in_try d = 0 \<and> at_134 d = 0 \<and> at_136 d = 0 \<and>
     at_137 d = 0 \<and> at_139 d = 0 \<and> spawned d = 0"

definition idle :: "dev \<Rightarrow> bool" where
  "idle d \<longleftrightarrow> \<not> building d \<and> \<not> build_queued d \<and> at_rest d"

text \<open>A request that is owed a build: the flag is set, or a thread is on its way to it.\<close>

definition owed :: "dev \<Rightarrow> nat" where
  "owed d = (if build_queued d \<or> 0 < at_137 d + at_139 d + spawned d then 1 else 0)"

text \<open>
  Once the burst is over and no further call arrives, a single thread is left, and the
  builds started plus the build still owed stay below a bound.
\<close>

definition settling :: "nat \<Rightarrow> dev \<Rightarrow> bool" where
  "settling K d \<longleftrightarrow>
     at_77 d = 0 \<and> at_80 d = 0 \<and>
     in_try d + at_134 d + at_136 d + at_137 d + at_139 d + spawned d \<le> 1 \<and>
     (building d \<longleftrightarrow> in_try d + at_134 d = 1) \<and>
     (build_queued d \<longrightarrow> at_136 d + at_137 d = 1) \<and>
     builds d + owed d \<le> K"

section \<open>Change watcher: \<open>SourceWatcher\<close>\<close>

text \<open>
  \<open>time.time()\<close> is read once in \<open>should_trigger_build\<close> and once more in
  \<open>on_modified\<close> when the event is accepted; both readings are inputs.
\<close>

record SourceWatcher =
  last_build :: real
  debounce_seconds :: real

definition SourceWatcher_init :: SourceWatcher where
  "SourceWatcher_init = \<lparr>last_build = 0, debounce_seconds = 1\<rparr>"

definition should_trigger_build :: "SourceWatcher \<Rightarrow> string \<Rightarrow> real \<Rightarrow> bool" where
  "should_trigger_build w path now =
     (if \<not> endswith path ''.swift'' then False
      else if py_in ''/.build/'' path \<or> py_in ''/.'' path then False
      else if now - last_build w < debounce_seconds w then False
      else True)"

datatype event_type = Created | Modified

record watch_event =
  event_type :: event_type
  is_directory :: bool
  src_path :: string

text \<open>
  The answer of \<open>on_modified\<close> says whether a thread running \<open>build_wasm\<close> was started.
\<close>

definition on_modified ::
  "SourceWatcher \<Rightarrow> watch_event \<Rightarrow> real \<Rightarrow> real \<Rightarrow> SourceWatcher \<times> bool" where
  "on_modified w event now now' =
     (if is_directory event then (w, False)
      else if should_trigger_build w (src_path event) now then (w\<lparr>last_build := now'\<rparr>, True)
      else (w, False))"

definition on_created ::
  "SourceWatcher \<Rightarrow> watch_event \<Rightarrow> real \<Rightarrow> real \<Rightarrow> SourceWatcher \<times> bool" where
  "on_created w event now now' = on_modified w event now now'"

text \<open>
  The observer hands the events to the handler one after the other. Each event comes
  with the two clock readings taken while it is handled; the result counts the builds
  requested.
\<close>

fun dispatch :: "SourceWatcher \<Rightarrow> (watch_event \<times> real \<times> real) list \<Rightarrow> SourceWatcher \<times> nat" where
  "dispatch w [] = (w, 0)"
| "dispatch w ((event, now, now') # rest) =
     (case (case event_type event of
              Created \<Rightarrow> on_created w event now now'
            | Modified \<Rightarrow> on_modified w event now now') of
        (w', started) \<Rightarrow>
          (case dispatch w' rest of (w'', n) \<Rightarrow> (w'', (if started then 1 else 0) + n)))"

text \<open>
  The words of the specification for the path filter: the segments of a path are the
  pieces between slashes, and a path lies under a dot-directory when one of its segments
  starts with a dot.
\<close>

fun segments :: "string \<Rightarrow> string list" where
  "segments [] = [[]]"
| "segments (c # cs) =
     (if c = CHR ''/'' then [] # segments cs
      else (case segments cs of [] \<Rightarrow> [[c]] | l # ls \<Rightarrow> (c # l) # ls))"

definition dot_segment :: "string \<Rightarrow> bool" where
  "dot_segment seg = prefix ''.'' seg"

text \<open>
  The paths the watchers deliver. The CLI schedules \<open>str(app_root / source_dir)\<close> with
  \<open>app_root\<close> taken from \<open>Path.cwd()\<close>, an absolute path (lines 266 to 270); the example
  schedules \<open>Sources\<close> and \<open>../../Sources\<close> (its \<open>SOURCE_DIRS\<close>). The observer reports
  paths that start with the root it was given.
\<close>

definition delivered :: "string \<Rightarrow> bool" where
  "delivered path \<longleftrightarrow>
     prefix ''/'' path \<or> prefix ''Sources'' path \<or> prefix ''../../Sources'' path"

text \<open>Events on files, for use in examples.\<close>

definition modified :: "string \<Rightarrow> watch_event" where
  "modified path = \<lparr>event_type = Modified, is_directory = False, src_path = path\<rparr>"

definition created :: "string \<Rightarrow> watch_event" where
  "created path = \<lparr>event_type = Created, is_directory = False, src_path = path\<rparr>"

text \<open>
  Five saves of five files within 200 milliseconds, with the clock readings of each.
\<close>

definition five_saves :: "(watch_event \<times> real \<times> real) list" where
  "five_saves =
     [(modified ''Sources/App/Main.swift'', 1700000000, 1700000000.01),
      (modified ''Sources/App/Model.swift'', 1700000000.05, 1700000000.05),
      (created ''Sources/App/Views/List.swift'', 1700000000.1, 1700000000.1),
      (modified ''Sources/App/Views/Row.swift'', 1700000000.15, 1700000000.15),
      (modified ''Sources/App/Store.swift'', 1700000000.2, 1700000000.2)]"

section \<open>Reload script served to the browser\<close>

text \<open>
  \<open>checkForUpdates\<close> once the status has arrived: \<open>lastHash\<close> and \<open>data.wasm_hash\<close> are a
  string or \<open>null\<close> (\<open>None\<close>). The answer is the new \<open>lastHash\<close> and whether
  \<open>window.location.reload()\<close> is called. A failed request changes nothing.
\<close>

definition truthy :: "string option \<Rightarrow> bool" where
  "truthy v = (case v of None \<Rightarrow> False | Some s \<Rightarrow> s \<noteq> [])"

definition checkForUpdates :: "string option \<Rightarrow> string option \<Rightarrow> string option \<times> bool" where
  "checkForUpdates lastHash wasm_hash =
     (if lastHash = None then (wasm_hash, False)
      else if truthy wasm_hash \<and> wasm_hash \<noteq> lastHash then (lastHash, True)
      else (lastHash, False))"

text \<open>
  The script from its start (\<open>let lastHash = null\<close>) over a list of observed
  fingerprints: which observations call for a reload.
\<close>

fun observe :: "string option \<Rightarrow> string option list \<Rightarrow> bool list" where
  "observe lastHash [] = []"
| "observe lastHash (wasm_hash # rest) =
     (case checkForUpdates lastHash wasm_hash of
        (lastHash', reload) \<Rightarrow> reload # observe lastHash' rest)"

section \<open>Response headers\<close>

record response =
  mimetype :: string
  headers :: "string \<rightharpoonup> string"

text \<open>\<open>add_headers\<close> of \<^verbatim>\<open>raven_dev.py\<close> (and of the example's \<^verbatim>\<open>raven-dev.py\<close>).\<close>

definition add_headers_dev :: "response \<Rightarrow> response" where
  "add_headers_dev response =
     (let response1 =
        (if mimetype response = ''application/wasm''
         then response\<lparr>headers := (headers response)
                (''Cache-Control'' \<mapsto> ''no-cache, no-store, must-revalidate'',
                 ''Pragma'' \<mapsto> ''no-cache'',
                 ''Expires'' \<mapsto> ''0'')\<rparr>
         else response)
      in response1\<lparr>headers := (headers response1)(''Access-Control-Allow-Origin'' \<mapsto> ''*'')\<rparr>)"

text \<open>\<open>add_headers\<close> of \<^verbatim>\<open>raven_serve.py\<close> (and \<open>add_header\<close> of the example's \<^verbatim>\<open>serve.py\<close>).\<close>

definition add_headers_serve :: "response \<Rightarrow> response" where
  "add_headers_serve response =
     (if mimetype response = ''application/wasm''
      then response\<lparr>headers := (headers response)
             (''Cache-Control'' \<mapsto> ''no-cache, no-store, must-revalidate'',
              ''Pragma'' \<mapsto> ''no-cache'',
              ''Expires'' \<mapsto> ''0'')\<rparr>
      else response)"

section \<open>Injecting the reload script\<close>

text \<open>\<open>s.replace(old, new)\<close>: every occurrence of \<open>old\<close>, found from left to right.\<close>

function py_replace :: "string \<Rightarrow> string \<Rightarrow> string \<Rightarrow> string" where
  "py_replace old new [] = (if old = [] then new else [])"
| "py_replace old new (c # cs) =
     (if old = [] then new @ c # py_replace old new cs
      else if prefix old (c # cs) then new @ py_replace old new (drop (length old) (c # cs))
      else c # py_replace old new cs)"
  by pat_completeness auto
termination
  by (relation "measure (\<lambda>(old, new, s). length s)") auto

text \<open>
  The script of \<^verbatim>\<open>raven_dev.py\<close>, byte for byte (the two emoji are in UTF-8), and the
  script of the example's \<^verbatim>\<open>raven-dev.py\<close> as that file has it.
\<close>

definition script :: string where
  "script =
     [CHR 0x0A] @
     ''    <!-- Raven Hot Reload -->'' @ [CHR 0x0A] @
     ''    <script id=\"raven-hot-reload\">'' @ [CHR 0x0A] @
     ''    (function() {'' @ [CHR 0x0A] @
     ''        let lastHash = null;'' @ [CHR 0x0A] @
     ''        function checkForUpdates() {'' @ [CHR 0x0A] @
     ''            fetch('/api/status')'' @ [CHR 0x0A] @
     ''                .then(r => r.json())'' @ [CHR 0x0A] @
     ''                .then(data => {'' @ [CHR 0x0A] @
     ''                    if (lastHash === null) {'' @ [CHR 0x0A] @
     ''                        lastHash = data.wasm_hash;'' @ [CHR 0x0A] @
     ''                        console.log('' @ [CHR 0x27, CHR 0xF0, CHR 0x9F, CHR 0x94, CHR 0xA5] @ '' Hot reload active');'' @ [CHR 0x0A] @
     ''                        return;'' @ [CHR 0x0A] @
     ''                    }'' @ [CHR 0x0A] @
     ''                    if (data.wasm_hash && data.wasm_hash !== lastHash) {'' @ [CHR 0x0A] @
     ''                        console.log('' @ [CHR 0x27, CHR 0xF0, CHR 0x9F, CHR 0x94, CHR 0x84] @ '' Reloading...');'' @ [CHR 0x0A] @
     ''                        window.location.reload();'' @ [CHR 0x0A] @
     ''                    }'' @ [CHR 0x0A] @
     ''                })'' @ [CHR 0x0A] @
     ''                .catch(() => {});'' @ [CHR 0x0A] @
     ''        }'' @ [CHR 0x0A] @
     ''        setInterval(checkForUpdates, 2000);'' @ [CHR 0x0A] @
     ''        checkForUpdates();'' @ [CHR 0x0A] @
     ''    })();'' @ [CHR 0x0A] @
     ''    </script>'' @ [CHR 0x0A] @
     ''    ''"

definition hot_reload_script :: string where
  "hot_reload_script =
     [CHR 0x0A] @
     ''    <!-- Raven Hot Reload -->'' @ [CHR 0x0A] @
     ''    <script id=\"raven-hot-reload\">'' @ [CHR 0x0A] @
     ''    (function() {'' @ [CHR 0x0A] @
     ''        let lastHash = null;'' @ [CHR 0x0A, CHR 0x0A] @
     ''        function checkForUpdates() {'' @ [CHR 0x0A] @
     ''            fetch('/api/status')'' @ [CHR 0x0A] @
     ''                .then(r => r.json())'' @ [CHR 0x0A] @
     ''                .then(data => {'' @ [CHR 0x0A] @
     ''                    if (lastHash === null) {'' @ [CHR 0x0A] @
     ''                        lastHash = data.wasm_hash;'' @ [CHR 0x0A] @
     ''                        console.log('' @ [CHR 0x27, CHR 0xEF, CHR 0xA3, CHR 0xBF, CHR 0xC3, CHR 0xBC, CHR 0xC3, CHR 0xAE, CHR 0xE2, CHR 0x80, CHR 0xA2] @ '' Hot reload active, hash:', lastHash?.substring(0, 8));'' @ [CHR 0x0A] @
     ''                        return;'' @ [CHR 0x0A] @
     ''                    }'' @ [CHR 0x0A, CHR 0x0A] @
     ''                    if (data.wasm_hash && data.wasm_hash !== lastHash) {'' @ [CHR 0x0A] @
     ''                        console.log('' @ [CHR 0x27, CHR 0xEF, CHR 0xA3, CHR 0xBF, CHR 0xC3, CHR 0xBC, CHR 0xC3, CHR 0xAE, CHR 0xC3, CHR 0x91] @ '' New build detected, reloading...');'' @ [CHR 0x0A] @
     ''                        window.location.reload();'' @ [CHR 0x0A] @
     ''                    }'' @ [CHR 0x0A] @
     ''                })'' @ [CHR 0x0A] @
     ''                .catch(err => console.error('Hot reload check failed:', err));'' @ [CHR 0x0A] @
     ''        }'' @ [CHR 0x0A, CHR 0x0A] @
     ''        // Check every 2 seconds'' @ [CHR 0x0A] @
     ''        setInterval(checkForUpdates, 2000);'' @ [CHR 0x0A] @
     ''        checkForUpdates();'' @ [CHR 0x0A] @
     ''    })();'' @ [CHR 0x0A] @
     ''    </script>'' @ [CHR 0x0A] @
     ''    ''"

text \<open>
  The file is its text, \<open>None\<close> when it does not exist; the result is the file after
  the call.
\<close>

definition inject :: "string \<Rightarrow> string option \<Rightarrow> string option" where
  "inject scr html =
     (case html of
        None \<Rightarrow> None
      | Some content \<Rightarrow>
          if py_in ''raven-hot-reload'' content then Some content
          else if py_in ''</body>'' content
          then Some (py_replace ''</body>'' (scr @ [CHR 0x0A] @ ''</body>'') content)
          else Some content)"

definition inject_hot_reload :: "string option \<Rightarrow> string option" where
  "inject_hot_reload html = inject script html"

definition inject_hot_reload_script :: "string option \<Rightarrow> string option" where
  "inject_hot_reload_script html = inject hot_reload_script html"

section \<open>Properties of the build coordinator\<close>

subsection \<open>Runs of the threads\<close>

lemma run_append:
  "run md5 (xs @ ys) d = (case run md5 xs d of None \<Rightarrow> None | Some d1 \<Rightarrow> run md5 ys d1)"
  by (induction xs arbitrary: d) (auto split: option.splits)

text \<open>
  Claim C1 fails on the source, because the test of line 76 and the assignment after it
  are two steps of a thread. First run: a build is started and is running; two calls
  arrive and both find \<open>building\<close> set; the first sets the flag at once, the second only
  after the follow-up build has started, so that build is followed by another: three
  builds for two calls. Second run: two calls find \<open>building\<close> unset before either sets
  it, and two threads are inside the \<open>try\<close> block at once.
\<close>

theorem unlocked_entry_three_builds_and_two_at_once:
  "run id
     [Call, Line_80,
      Call, Call, Line_77,
      Try_done (build_succeeds ''wasm1''), Line_134, Line_136, Line_137, Line_139,
      Follow_up, Line_80,
      Line_77,
      Try_done (build_succeeds ''wasm2''), Line_134, Line_136, Line_137, Line_139,
      Follow_up, Line_80,
      Try_done (build_succeeds ''wasm3''), Line_134, Line_136]
     (RavenDevServer_init None)
     = Some ((RavenDevServer_init (Some ''wasm3''))\<lparr>last_wasm_hash := Some ''wasm3'', builds := 3\<rparr>) \<and>
   run id [Call, Call, Line_80, Line_80] (RavenDevServer_init None)
     = Some ((RavenDevServer_init None)\<lparr>building := True, in_try := 2, builds := 2\<rparr>)"
  by (simp add: RavenDevServer_init_def line_76_def line_77_def line_80_def try_block_def
        line_134_def line_137_def line_139_def try_build_def get_wasm_hash_def build_succeeds_def)

text \<open>
  The same two steps lose a request: a call finds \<open>building\<close> set, the build runs lines
  134 and 136 and ends, and only then the call sets the flag. Everything is at rest with
  the flag set, one build has run, and no thread is left to serve the flag.
\<close>

lemma late_flag_is_never_served:
  "run id [Call, Line_80, Call, Try_done (build_succeeds ''wasm''), Line_134, Line_136, Line_77]
     (RavenDevServer_init None)
     = Some ((RavenDevServer_init (Some ''wasm''))
               \<lparr>build_queued := True, last_wasm_hash := Some ''wasm'', builds := 1\<rparr>) \<and>
   at_rest ((RavenDevServer_init (Some ''wasm''))
               \<lparr>build_queued := True, last_wasm_hash := Some ''wasm'', builds := 1\<rparr>)"
  by (simp add: RavenDevServer_init_def at_rest_def line_76_def line_77_def line_80_def
        try_block_def line_134_def try_build_def get_wasm_hash_def build_succeeds_def)

lemma at_rest_only_calls: "at_rest d \<Longrightarrow> e \<noteq> Call \<Longrightarrow> step md5 e d = None"
  by (cases e) (simp_all add: at_rest_def)

subsection \<open>One call of \<open>build_wasm\<close>\<close>

lemma try_build_cases:
  assumes "try_build md5 io old file = (out, hash, file')"
  shows "(\<exists>h. out = BuildSuccessful h) \<and>
           (\<exists>stderr bytes. swift_build io = CompletedProcess 0 stderr \<and> wasm_src io = Some bytes \<and>
              \<not> copy2_raises io \<and> \<not> read_raises io \<and> \<not> stat_raises io \<and>
              file' = Some bytes \<and> hash = Some (md5 bytes))
         \<or> (\<forall>h. out \<noteq> BuildSuccessful h) \<and> hash = old \<and>
           (swift_build io = TimeoutExpired \<or> swift_build io = RunRaised \<or>
            (\<exists>returncode stderr. swift_build io = CompletedProcess returncode stderr \<and> returncode \<noteq> 0) \<or>
            wasm_src io = None \<or> copy2_raises io \<or> read_raises io \<or> stat_raises io)"
  using assms
  by (auto simp: try_build_def get_wasm_hash_def
           split: run_result.splits if_splits option.splits sum.splits)

lemma finally_block_hash [simp]: "last_wasm_hash (finally_block d) = last_wasm_hash d"
  by (simp add: finally_block_def line_134_def line_137_def line_139_def Let_def)

lemma finally_block_file [simp]: "wasm_file (finally_block d) = wasm_file d"
  by (simp add: finally_block_def line_134_def line_137_def line_139_def Let_def)

lemma finally_block_builds [simp]: "builds (finally_block d) = builds d"
  by (simp add: finally_block_def line_134_def line_137_def line_139_def Let_def)

lemma finally_block_building [simp]: "\<not> building (finally_block d)"
  by (simp add: finally_block_def line_134_def line_137_def line_139_def Let_def)

lemma returns_True_iff: "returns_True out \<longleftrightarrow> (\<exists>h. out = BuildSuccessful h)"
  by (cases out) simp_all

text \<open>
  Claim C2, as amended. A call that returns \<open>True\<close> had exit status zero, found the
  artifact, copied it into the served directory and stored the digest of the copied
  bytes; after every other call the fingerprint is the one it was before. A non-zero
  exit status, a timeout, a missing artifact and an exception while copying, hashing or
  reading the size each make the call return something else than \<open>True\<close>.
\<close>

theorem fingerprint_changes_only_on_success:
  assumes "build_wasm md5 io d = (result, d')"
  shows "(result = Some True \<longrightarrow>
            (\<exists>stderr bytes. swift_build io = CompletedProcess 0 stderr \<and> wasm_src io = Some bytes \<and>
               \<not> copy2_raises io \<and> wasm_file d' = Some bytes \<and>
               last_wasm_hash d' = Some (md5 bytes))) \<and>
         (result \<noteq> Some True \<longrightarrow> last_wasm_hash d' = last_wasm_hash d) \<and>
         (swift_build io = TimeoutExpired \<or>
          (\<exists>returncode stderr. swift_build io = CompletedProcess returncode stderr \<and> returncode \<noteq> 0) \<or>
          wasm_src io = None \<or> copy2_raises io \<or> read_raises io \<or> stat_raises io
            \<longrightarrow> result \<noteq> Some True)"
proof (cases "building d")
  case True
  with assms have "result = None" "d' = d\<lparr>build_queued := True\<rparr>"
    by (auto simp: build_wasm_def line_77_def)
  then show ?thesis by simp
next
  case False
  define d1 where "d1 = d\<lparr>building := True, in_try := in_try d + 1, builds := builds d + 1\<rparr>"
  obtain out hash file' where t: "try_build md5 io (last_wasm_hash d) (wasm_file d) = (out, hash, file')"
    by (cases "try_build md5 io (last_wasm_hash d) (wasm_file d)") auto
  from False assms t have res: "result = Some (returns_True out)"
    and d': "d' = finally_block (d1\<lparr>last_wasm_hash := hash, wasm_file := file', in_try := in_try d1 - 1\<rparr>)"
    by (auto simp: build_wasm_def line_80_def try_block_def d1_def)
  from d' have h: "last_wasm_hash d' = hash" and f: "wasm_file d' = file'" by simp_all
  from try_build_cases [OF t] show ?thesis
    unfolding res h f returns_True_iff by auto
qed

theorem fingerprint_changes_only_on_success_witness:
  "build_wasm id (build_fails 1 ''main.swift:1:1: error: boom'')
     ((RavenDevServer_init None)\<lparr>last_wasm_hash := Some ''old''\<rparr>)
   = (Some False, (RavenDevServer_init None)\<lparr>last_wasm_hash := Some ''old'', builds := 1\<rparr>) \<and>
   Some False \<noteq> Some True \<and>
   last_wasm_hash ((RavenDevServer_init None)\<lparr>last_wasm_hash := Some ''old'', builds := 1\<rparr>)
     = last_wasm_hash ((RavenDevServer_init None)\<lparr>last_wasm_hash := Some ''old''\<rparr>)"
proof -
  have b: "build_wasm id (build_fails 1 ''main.swift:1:1: error: boom'')
     ((RavenDevServer_init None)\<lparr>last_wasm_hash := Some ''old''\<rparr>)
   = (Some False, (RavenDevServer_init None)\<lparr>last_wasm_hash := Some ''old'', builds := 1\<rparr>)"
    by (simp add: build_wasm_def line_80_def try_block_def finally_block_def line_134_def
        try_build_def build_fails_def RavenDevServer_init_def)
  from fingerprint_changes_only_on_success [OF b] show ?thesis using b by simp
qed

text \<open>
  Claim C2 as stated fails from right to left: a build that exits with status zero and
  whose artifact is found and copied leaves the fingerprint as it was when the bytes are
  those of the build before.
\<close>

theorem rebuild_of_same_artifact_keeps_fingerprint:
  "fst (build_wasm id (build_succeeds ''wasm'')
          ((RavenDevServer_init (Some ''wasm''))\<lparr>last_wasm_hash := Some ''wasm''\<rparr>)) = Some True \<and>
   last_wasm_hash (snd (build_wasm id (build_succeeds ''wasm'')
          ((RavenDevServer_init (Some ''wasm''))\<lparr>last_wasm_hash := Some ''wasm''\<rparr>)))
     = last_wasm_hash ((RavenDevServer_init (Some ''wasm''))\<lparr>last_wasm_hash := Some ''wasm''\<rparr>)"
  by (simp add: build_wasm_def line_80_def try_block_def try_build_def
        get_wasm_hash_def build_succeeds_def RavenDevServer_init_def)

subsection \<open>What a call does\<close>




subsection \<open>The status before the first build\<close>

lemma hash_step_not_Try_done:
  "step md5 e d = Some d' \<Longrightarrow> \<forall>io. e \<noteq> Try_done io \<Longrightarrow>
   last_wasm_hash d' = last_wasm_hash d \<and> wasm_file d' = wasm_file d"
  by (cases e)
     (auto simp: line_76_def line_77_def line_80_def line_134_def line_137_def line_139_def
           split: if_splits)

lemma hash_run_no_Try_done:
  "run md5 evs d = Some d' \<Longrightarrow> \<forall>e \<in> set evs. \<forall>io. e \<noteq> Try_done io \<Longrightarrow>
   last_wasm_hash d' = last_wasm_hash d \<and> wasm_file d' = wasm_file d"
proof (induction evs arbitrary: d)
  case Nil
  then show ?case by simp
next
  case (Cons e evs)
  from Cons.prems obtain d1 where s: "step md5 e d = Some d1" and r: "run md5 evs d1 = Some d'"
    by (auto split: option.splits)
  from Cons.prems(2) have "\<forall>io. e \<noteq> Try_done io" by simp
  with s have "last_wasm_hash d1 = last_wasm_hash d \<and> wasm_file d1 = wasm_file d"
    by (rule hash_step_not_Try_done)
  moreover from Cons.prems(2) have "\<forall>e \<in> set evs. \<forall>io. e \<noteq> Try_done io" by simp
  with r have "last_wasm_hash d' = last_wasm_hash d1 \<and> wasm_file d' = wasm_file d1"
    by (rule Cons.IH)
  ultimately show ?case by simp
qed

text \<open>
  Claim C7, as amended. A fresh server reports no fingerprint, whatever file the served
  directory holds, and keeps reporting none as long as no build has left its \<open>try\<close>
  block: the fingerprint is never derived from a file that is already there.
\<close>

theorem status_before_first_build_is_null:
  "json_wasm_hash (status (RavenDevServer_init served) now) = None \<and>
   (\<forall>evs d. (\<forall>e \<in> set evs. \<forall>io. e \<noteq> Try_done io) \<longrightarrow>
      run md5 evs (RavenDevServer_init served) = Some d \<longrightarrow>
      json_wasm_hash (status d now) = None \<and> wasm_file d = served)"
proof (intro conjI allI impI)
  show "json_wasm_hash (status (RavenDevServer_init served) now) = None"
    by (simp add: status_def RavenDevServer_init_def)
next
  fix evs d
  assume n: "\<forall>e \<in> set evs. \<forall>io. e \<noteq> Try_done io"
    and r: "run md5 evs (RavenDevServer_init served) = Some d"
  from r n have "last_wasm_hash d = last_wasm_hash (RavenDevServer_init served) \<and>
      wasm_file d = wasm_file (RavenDevServer_init served)"
    by (rule hash_run_no_Try_done)
  then show "json_wasm_hash (status d now) = None" and "wasm_file d = served"
    by (simp_all add: status_def RavenDevServer_init_def)
qed

theorem status_before_first_build_is_null_witness:
  "run id [Call, Line_80, Call, Line_77] (RavenDevServer_init (Some ''wasm''))
     = Some ((RavenDevServer_init (Some ''wasm''))
               \<lparr>building := True, build_queued := True, in_try := 1, builds := 1\<rparr>) \<and>
   json_wasm_hash (status ((RavenDevServer_init (Some ''wasm''))
               \<lparr>building := True, build_queued := True, in_try := 1, builds := 1\<rparr>)
             ''2026-01-01T00:00:00'') = None"
proof -
  have n: "\<forall>e \<in> set [Call, Line_80, Call, Line_77]. \<forall>io. e \<noteq> Try_done io" by simp
  have r: "run id [Call, Line_80, Call, Line_77] (RavenDevServer_init (Some ''wasm''))
     = Some ((RavenDevServer_init (Some ''wasm''))
               \<lparr>building := True, build_queued := True, in_try := 1, builds := 1\<rparr>)"
    by (simp add: line_76_def line_77_def line_80_def RavenDevServer_init_def)
  from status_before_first_build_is_null
    [of "Some ''wasm''" "''2026-01-01T00:00:00''" id, THEN conjunct2, THEN spec, THEN spec,
      THEN mp, THEN mp, OF n r]
  show ?thesis using r by blast
qed

text \<open>
  Claim C7 as stated fails: with an artifact in the served directory, whose digest
  \<open>get_wasm_hash\<close> would return, the status of a fresh server has no fingerprint.
\<close>

theorem status_ignores_existing_artifact:
  "wasm_file (RavenDevServer_init (Some ''wasm'')) = Some ''wasm'' \<and>
   get_wasm_hash id (build_succeeds ''wasm'') (wasm_file (RavenDevServer_init (Some ''wasm'')))
     = Inr (Some ''wasm'') \<and>
   json_wasm_hash (status (RavenDevServer_init (Some ''wasm'')) ''2026-01-01T00:00:00'') = None"
  by (simp add: status_def RavenDevServer_init_def get_wasm_hash_def build_succeeds_def)

subsection \<open>With a lock around lines 76 to 80\<close>

text \<open>
  The rest of \<open>build_wasm\<close> does what the specification asks: were the test of line 76
  and the assignment after it one step, no two builds would run at once, a burst of
  calls during a build would give one follow-up build, and a set flag would be served.
  A locked step is a run of one or two steps of the source.
\<close>

lemma step_locked_is_run:
  "step_locked md5 e d = Some d' \<Longrightarrow> \<exists>es. es \<noteq> [] \<and> hd es = e \<and> run md5 es d = Some d'"
proof (cases "e = Call \<or> e = Follow_up")
  case True
  assume l: "step_locked md5 e d = Some d'"
  with True obtain d1 where s: "step md5 e d = Some d1"
    and t: "step md5 (if building d then Line_77 else Line_80) d1 = Some d'"
    by (auto split: option.splits)
  then have "run md5 [e, if building d then Line_77 else Line_80] d = Some d'" by simp
  then show ?thesis by (intro exI [of _ "[e, if building d then Line_77 else Line_80]"]) simp
next
  case False
  assume l: "step_locked md5 e d = Some d'"
  with False have "step md5 e d = Some d'" by (cases e) simp_all
  then have "run md5 [e] d = Some d'" by simp
  then show ?thesis by (intro exI [of _ "[e]"]) simp
qed

lemma consistent_init: "consistent (RavenDevServer_init served)"
  by (simp add: consistent_def RavenDevServer_init_def)

lemma consistent_step_locked:
  assumes "consistent d" and "step_locked md5 e d = Some d'"
  shows "consistent d'"
  using assms
  by (cases e)
     (auto simp: consistent_def line_76_def line_77_def line_80_def try_block_def line_134_def
           line_137_def line_139_def split: if_splits prod.splits)

lemma consistent_run_locked:
  "consistent d \<Longrightarrow> run_locked md5 es d = Some d' \<Longrightarrow> consistent d'"
proof (induction es arbitrary: d)
  case Nil
  then show ?case by simp
next
  case (Cons e es)
  then show ?case by (auto split: option.splits dest: consistent_step_locked)
qed

lemma idle_consistent: "idle d \<Longrightarrow> consistent d"
  by (simp add: idle_def at_rest_def consistent_def)

lemma run_locked_append:
  "run_locked md5 (xs @ ys) d =
     (case run_locked md5 xs d of None \<Rightarrow> None | Some d1 \<Rightarrow> run_locked md5 ys d1)"
  by (induction xs arbitrary: d) (auto split: option.splits)

lemma step_locked_call_building:
  "building d \<Longrightarrow> step_locked md5 Call d = Some (d\<lparr>build_queued := True\<rparr>)"
  by (simp add: line_76_def line_77_def)

lemma run_locked_calls_building:
  "building d \<Longrightarrow>
   run_locked md5 (replicate n Call) d = Some (if n = 0 then d else d\<lparr>build_queued := True\<rparr>)"
proof (induction n arbitrary: d)
  case 0
  then show ?case by simp
next
  case (Suc n)
  have "step_locked md5 Call d = Some (d\<lparr>build_queued := True\<rparr>)"
    using Suc.prems by (rule step_locked_call_building)
  moreover have "building (d\<lparr>build_queued := True\<rparr>)" using Suc.prems by simp
  ultimately show ?case using Suc.IH [of "d\<lparr>build_queued := True\<rparr>"] by simp
qed

lemma settling_step_locked:
  "settling K d \<Longrightarrow> e \<noteq> Call \<Longrightarrow> step_locked md5 e d = Some d' \<Longrightarrow> settling K d'"
  by (cases e)
     (auto simp: settling_def owed_def line_76_def line_77_def line_80_def try_block_def
           line_134_def line_137_def line_139_def split: if_splits prod.splits)

lemma settling_run_locked:
  "settling K d \<Longrightarrow> Call \<notin> set es \<Longrightarrow> run_locked md5 es d = Some d' \<Longrightarrow> settling K d'"
proof (induction es arbitrary: d)
  case Nil
  then show ?case by simp
next
  case (Cons e es)
  from Cons.prems obtain d1 where s: "step_locked md5 e d = Some d1"
    and r: "run_locked md5 es d1 = Some d'"
    by (auto split: option.splits)
  from Cons.prems have "e \<noteq> Call" by auto
  with Cons.prems(1) s have "settling K d1" by (auto intro: settling_step_locked)
  moreover from Cons.prems have "Call \<notin> set es" by simp
  ultimately show ?case using r by (rule Cons.IH)
qed

lemma owed_step_locked:
  "consistent d \<Longrightarrow> step_locked md5 e d = Some d' \<Longrightarrow> builds d + owed d \<le> builds d' + owed d'"
  by (cases e)
     (auto simp: consistent_def owed_def line_76_def line_77_def line_80_def try_block_def
           line_134_def line_137_def line_139_def split: if_splits prod.splits)

lemma owed_run_locked:
  "consistent d \<Longrightarrow> run_locked md5 es d = Some d' \<Longrightarrow> builds d + owed d \<le> builds d' + owed d'"
proof (induction es arbitrary: d)
  case Nil
  then show ?case by simp
next
  case (Cons e es)
  from Cons.prems obtain d1 where s: "step_locked md5 e d = Some d1"
    and r: "run_locked md5 es d1 = Some d'"
    by (auto split: option.splits)
  from Cons.prems(1) s have c1: "consistent d1" by (rule consistent_step_locked)
  from Cons.prems(1) s have "builds d + owed d \<le> builds d1 + owed d1" by (rule owed_step_locked)
  also from c1 r have "\<dots> \<le> builds d' + owed d'" by (rule Cons.IH)
  finally show ?case .
qed

lemma owed_at_rest: "consistent d \<Longrightarrow> at_rest d \<Longrightarrow> owed d = 0"
  by (auto simp: consistent_def at_rest_def owed_def)

text \<open>Under the lock a set flag is served: a run that comes to rest has built once more.\<close>

lemma locked_queued_is_served:
  assumes "consistent d" "build_queued d" "run_locked md5 es d = Some d'" "at_rest d'"
  shows "builds d + 1 \<le> builds d'"
proof -
  have "consistent d'" using assms(1,3) by (rule consistent_run_locked)
  then have "owed d' = 0" using assms(4) by (rule owed_at_rest)
  moreover have "owed d = 1" using assms(2) by (simp add: owed_def)
  ultimately show ?thesis using owed_run_locked [OF assms(1,3)] by simp
qed

text \<open>Under the lock no two threads are inside the \<open>try\<close> block, whatever arrives.\<close>

lemma locked_never_two_builds:
  assumes "idle d" "run_locked md5 evs d = Some d'"
  shows "in_try d' \<le> 1"
proof -
  from idle_consistent [OF assms(1)] assms(2) have "consistent d'" by (rule consistent_run_locked)
  then show ?thesis by (simp add: consistent_def)
qed

lemma burst_shape_locked:
  assumes i: "idle d"
    and r: "run_locked md5
              (Call # replicate n1 Call @ Try_done io # replicate n2 Call @ Line_134 # es) d
              = Some d'"
  obtains d5 where "run_locked md5 es d5 = Some d'" "settling (builds d + 2) d5"
    "builds d5 = builds d + 1" "consistent d5" "1 \<le> n1 + n2 \<longrightarrow> owed d5 = 1"
proof -
  define d1 where "d1 = d\<lparr>building := True, in_try := in_try d + 1, builds := builds d + 1\<rparr>"
  define d2 where "d2 = (if n1 = 0 then d1 else d1\<lparr>build_queued := True\<rparr>)"
  define d3 where "d3 = (snd (try_block md5 io d2))\<lparr>at_134 := at_134 d2 + 1\<rparr>"
  define d4 where "d4 = (if n2 = 0 then d3 else d3\<lparr>build_queued := True\<rparr>)"
  define d5 where "d5 = (line_134 d4)\<lparr>at_134 := at_134 d4 - 1, at_136 := at_136 d4 + 1\<rparr>"
  have s1: "step_locked md5 Call d = Some d1"
    using i by (simp add: idle_def at_rest_def line_76_def line_80_def d1_def)
  have b1: "building d1" by (simp add: d1_def)
  have s2: "run_locked md5 (replicate n1 Call) d1 = Some d2"
    unfolding d2_def using b1 by (rule run_locked_calls_building)
  have f2: "in_try d2 = 1" using i by (simp add: d2_def d1_def idle_def at_rest_def)
  then have s3: "step_locked md5 (Try_done io) d2 = Some d3" by (simp add: d3_def)
  have b3: "building d3"
    by (simp add: d3_def d2_def d1_def try_block_def split: prod.splits)
  have s4: "run_locked md5 (replicate n2 Call) d3 = Some d4"
    unfolding d4_def using b3 by (rule run_locked_calls_building)
  have f4: "at_134 d4 = 1"
    using i by (simp add: d4_def d3_def d2_def d1_def idle_def at_rest_def try_block_def
        split: prod.splits)
  then have s5: "step_locked md5 Line_134 d4 = Some d5" by (simp add: d5_def)
  have upto: "run_locked md5
      (Call # replicate n1 Call @ Try_done io # replicate n2 Call @ [Line_134]) d = Some d5"
    using s1 s2 s3 s4 s5 by (simp add: run_locked_append)
  have "Call # replicate n1 Call @ Try_done io # replicate n2 Call @ Line_134 # es
      = (Call # replicate n1 Call @ Try_done io # replicate n2 Call @ [Line_134]) @ es"
    by simp
  with r upto have r5: "run_locked md5 es d5 = Some d'"
    by (simp only: run_locked_append option.case)
  from idle_consistent [OF i] upto have c5: "consistent d5" by (rule consistent_run_locked)
  have q5: "build_queued d5 \<longleftrightarrow> 1 \<le> n1 + n2"
    using i by (auto simp: d5_def d4_def d3_def d2_def d1_def idle_def line_134_def try_block_def
        split: prod.splits)
  have shape: "\<not> building d5 \<and> at_77 d5 = 0 \<and> at_80 d5 = 0 \<and> in_try d5 = 0 \<and> at_134 d5 = 0 \<and>
      at_136 d5 = 1 \<and> at_137 d5 = 0 \<and> at_139 d5 = 0 \<and> spawned d5 = 0 \<and> builds d5 = builds d + 1"
    using i by (auto simp: d5_def d4_def d3_def d2_def d1_def idle_def at_rest_def line_134_def
        try_block_def split: prod.splits)
  from shape have st: "settling (builds d + 2) d5" by (simp add: settling_def owed_def)
  from shape have b5: "builds d5 = builds d + 1" by simp
  from q5 have o5: "1 \<le> n1 + n2 \<longrightarrow> owed d5 = 1" by (simp add: owed_def)
  from r5 st b5 c5 o5 show thesis by (rule that)
qed

text \<open>
  Under the lock, calls that arrive while \<open>building\<close> is set lead to at most two builds
  in all, and to exactly two when a call did arrive and everything has come to rest.
\<close>

lemma locked_burst_at_most_two_builds:
  assumes "idle d" and "Call \<notin> set es"
    and "run_locked md5
           (Call # replicate n1 Call @ Try_done io # replicate n2 Call @ Line_134 # es) d
           = Some d'"
  shows "builds d' \<le> builds d + 2"
    and "1 \<le> n1 + n2 \<Longrightarrow> at_rest d' \<Longrightarrow> builds d' = builds d + 2"
proof -
  from assms(1,3) obtain d5 where r5: "run_locked md5 es d5 = Some d'"
    and st: "settling (builds d + 2) d5" and b5: "builds d5 = builds d + 1"
    and c5: "consistent d5" and o5: "1 \<le> n1 + n2 \<longrightarrow> owed d5 = 1" by (rule burst_shape_locked)
  from st assms(2) r5 have "settling (builds d + 2) d'" by (rule settling_run_locked)
  then show le: "builds d' \<le> builds d + 2" by (simp add: settling_def)
  show "builds d' = builds d + 2" if n: "1 \<le> n1 + n2" and a: "at_rest d'"
  proof -
    from c5 r5 have "consistent d'" by (rule consistent_run_locked)
    with a have "owed d' = 0" by (simp add: owed_at_rest)
    moreover from o5 n have "owed d5 = 1" by simp
    ultimately have "builds d + 2 \<le> builds d'" using owed_run_locked [OF c5 r5] b5 by simp
    with le show ?thesis by simp
  qed
qed

section \<open>Properties of the change watcher\<close>

lemma segments_not_Nil [simp]: "segments p \<noteq> []"
  by (induction p) (auto split: list.splits)

lemma hd_segments_dot: "dot_segment (hd (segments p)) \<longleftrightarrow> prefix ''.'' p"
  by (cases p) (auto simp: dot_segment_def split: list.splits)

lemma tl_segments_Cons:
  "tl (segments (c # cs)) = (if c = CHR ''/'' then segments cs else tl (segments cs))"
  by (auto split: list.splits)

lemma Bex_segments:
  "(\<exists>seg \<in> set (segments p). P seg) \<longleftrightarrow> P (hd (segments p)) \<or> (\<exists>seg \<in> set (tl (segments p)). P seg)"
proof -
  have "set (segments p) = insert (hd (segments p)) (set (tl (segments p)))"
    by (cases "segments p") auto
  then show ?thesis by auto
qed

lemma slash_dot_segments:
  "py_in ''/.'' p \<longleftrightarrow> (\<exists>seg \<in> set (tl (segments p)). dot_segment seg)"
proof (induction p)
  case Nil
  then show ?case by (simp add: py_in_def)
next
  case (Cons c cs)
  show ?case
  proof (cases "c = CHR ''/''")
    case True
    have "py_in ''/.'' (c # cs) \<longleftrightarrow> prefix ''.'' cs \<or> py_in ''/.'' cs"
      using True by (simp add: py_in_def sublist_code)
    also have "\<dots> \<longleftrightarrow> (\<exists>seg \<in> set (segments cs). dot_segment seg)"
      using Cons.IH by (simp add: Bex_segments [of cs] hd_segments_dot)
    finally show ?thesis using True by (simp add: tl_segments_Cons del: segments.simps)
  next
    case False
    have "py_in ''/.'' (c # cs) \<longleftrightarrow> py_in ''/.'' cs"
      using False by (simp add: py_in_def sublist_code)
    with Cons.IH False show ?thesis by (simp add: tl_segments_Cons del: segments.simps)
  qed
qed

lemma build_dir_is_dot_dir: "py_in ''/.build/'' p \<Longrightarrow> py_in ''/.'' p"
proof -
  assume "py_in ''/.build/'' p"
  moreover have "sublist ''/.'' ''/.build/''" by (simp add: sublist_code)
  ultimately show ?thesis unfolding py_in_def by (auto intro: sublist_order.order_trans)
qed

lemma should_trigger_build_iff:
  "should_trigger_build w path now \<longleftrightarrow>
     endswith path ''.swift'' \<and> \<not> py_in ''/.'' path \<and> debounce_seconds w \<le> now - last_build w"
  using build_dir_is_dot_dir [of path] by (auto simp: should_trigger_build_def)

lemma on_modified_accepts:
  "snd (on_modified w event now now') \<longleftrightarrow>
     \<not> is_directory event \<and> should_trigger_build w (src_path event) now"
  by (simp add: on_modified_def)

lemma on_modified_state:
  "fst (on_modified w event now now') =
     (if snd (on_modified w event now now') then w\<lparr>last_build := now'\<rparr> else w)"
  by (simp add: on_modified_def)

text \<open>
  An event starts a build exactly when it is not a directory event, its path ends in
  \<open>.swift\<close>, the path does not contain \<open>/.\<close>, and the debounce window has passed. A
  path contains \<open>/.\<close> exactly when one of its segments after the first starts with a dot.
\<close>

lemma on_modified_iff:
  "(snd (on_modified w event now now') \<longleftrightarrow>
      \<not> is_directory event \<and> endswith (src_path event) ''.swift'' \<and>
      \<not> py_in ''/.'' (src_path event) \<and> debounce_seconds w \<le> now - last_build w) \<and>
   on_created w event now now' = on_modified w event now now' \<and>
   (py_in ''/.'' (src_path event) \<longleftrightarrow>
      (\<exists>seg \<in> set (tl (segments (src_path event))). dot_segment seg))"
  by (simp add: on_modified_accepts should_trigger_build_iff on_created_def
        slash_dot_segments [symmetric])


text \<open>
  On the paths the watchers deliver as they are set up, the filter does what the claim
  says: a first segment that starts with a dot comes with \<open>/.\<close> further on.
\<close>

lemma delivered_dot_segments:
  assumes "delivered p"
  shows "py_in ''/.'' p \<longleftrightarrow> (\<exists>seg \<in> set (segments p). dot_segment seg)"
proof -
  have first: "dot_segment (hd (segments p)) \<longrightarrow> py_in ''/.'' p"
  proof
    assume "dot_segment (hd (segments p))"
    then have dot: "prefix ''.'' p" by (simp add: hd_segments_dot)
    from assms consider "prefix ''/'' p" | "prefix ''Sources'' p" | "prefix ''../../Sources'' p"
      unfolding delivered_def by blast
    then show "py_in ''/.'' p"
    proof cases
      case 1
      with dot show ?thesis by (auto simp: prefix_def)
    next
      case 2
      with dot show ?thesis by (auto simp: prefix_def)
    next
      case 3
      then obtain rest where "p = ''../../Sources'' @ rest" by (auto simp: prefix_def)
      then have "p = ''..'' @ ''/.'' @ (''./Sources'' @ rest)" by simp
      then show ?thesis unfolding py_in_def sublist_def by blast
    qed
  qed
  show ?thesis
    using first by (auto simp: slash_dot_segments Bex_segments [of p])
qed

lemma watcher_filters_delivered_events:
  assumes "delivered (src_path event)"
  shows "(snd (on_modified w event now now') \<longleftrightarrow>
            \<not> is_directory event \<and> endswith (src_path event) ''.swift'' \<and>
            \<not> (\<exists>seg \<in> set (segments (src_path event)). dot_segment seg) \<and>
            debounce_seconds w \<le> now - last_build w) \<and>
         on_created w event now now' = on_modified w event now now'"
  using delivered_dot_segments [OF assms]
  by (simp add: on_modified_accepts should_trigger_build_iff on_created_def)


lemma watcher_filters_delivered_events_example:
  "delivered ''Sources/App/Main.swift'' \<and>
   snd (on_modified SourceWatcher_init (modified ''Sources/App/Main.swift'')
          1700000000 1700000000) \<and>
   delivered ''/app/.build/checkouts/Dep/Dep.swift'' \<and>
   \<not> snd (on_created SourceWatcher_init (created ''/app/.build/checkouts/Dep/Dep.swift'')
          1700000000 1700000000) \<and>
   delivered ''/app/Sources/App/notes.txt'' \<and>
   \<not> snd (on_modified SourceWatcher_init (modified ''/app/Sources/App/notes.txt'')
          1700000000 1700000000)"
proof -
  have d1: "delivered (src_path (modified ''Sources/App/Main.swift''))"
    and d2: "delivered (src_path (created ''/app/.build/checkouts/Dep/Dep.swift''))"
    and d3: "delivered (src_path (modified ''/app/Sources/App/notes.txt''))"
    by (simp_all add: delivered_def modified_def created_def)
  have s1: "segments ''Sources/App/Main.swift'' = [''Sources'', ''App'', ''Main.swift'']"
    and s2: "segments ''/app/.build/checkouts/Dep/Dep.swift''
        = [[], ''app'', ''.build'', ''checkouts'', ''Dep'', ''Dep.swift'']"
    by simp_all
  have e1: "endswith ''Sources/App/Main.swift'' ''.swift''"
    and e3: "\<not> endswith ''/app/Sources/App/notes.txt'' ''.swift''"
    by (simp_all add: endswith_def suffix_to_prefix)
  show ?thesis
    using watcher_filters_delivered_events [OF d1, of SourceWatcher_init 1700000000 1700000000]
      watcher_filters_delivered_events [OF d2, of SourceWatcher_init 1700000000 1700000000]
      watcher_filters_delivered_events [OF d3, of SourceWatcher_init 1700000000 1700000000]
      d1 d2 d3 s1 s2 e1 e3
    by (simp add: modified_def created_def dot_segment_def SourceWatcher_init_def)
qed

subsection \<open>The debounce gate\<close>

lemma dispatch_Cons:
  "dispatch w ((event, now, now') # rest) =
     (fst (dispatch (fst (on_modified w event now now')) rest),
      (if snd (on_modified w event now now') then 1 else 0) +
        snd (dispatch (fst (on_modified w event now now')) rest))"
  by (cases "event_type event") (simp_all add: on_created_def split: prod.splits)

lemma dispatch_closed_gate:
  "\<forall>(event, now, now') \<in> set evs. now - last_build w < debounce_seconds w \<Longrightarrow>
   dispatch w evs = (w, 0)"
proof (induction evs)
  case Nil
  then show ?case by simp
next
  case (Cons x evs)
  obtain event now now' where x: "x = (event, now, now')" by (cases x) auto
  from Cons.prems x have "now - last_build w < debounce_seconds w" by simp
  then have r: "on_modified w event now now' = (w, False)"
    by (simp add: on_modified_def should_trigger_build_def)
  from Cons.prems have "dispatch w evs = (w, 0)" by (intro Cons.IH) simp
  with r x show ?case by (simp add: dispatch_Cons del: dispatch.simps)
qed

text \<open>
  Claim C3. An event is accepted only if the debounce window has passed since the stamp
  of the last accepted event, and then the stamp becomes the second clock reading; a
  rejected event leaves the watcher as it was; within the window every event is rejected,
  whatever its path. A burst of events on source files whose clock readings all lie
  within 200 milliseconds, arriving when the window has passed, requests exactly one
  build.
\<close>

theorem debounce_gate_is_global:
  "(snd (on_modified w event now now') \<longrightarrow>
      debounce_seconds w \<le> now - last_build w \<and>
      fst (on_modified w event now now') = w\<lparr>last_build := now'\<rparr>) \<and>
   (\<not> snd (on_modified w event now now') \<longrightarrow> fst (on_modified w event now now') = w) \<and>
   (now - last_build w < debounce_seconds w \<longrightarrow> \<not> snd (on_modified w event now now')) \<and>
   (evs \<noteq> [] \<and> debounce_seconds w = 1 \<and> 1 \<le> t0 - last_build w \<and>
    (\<forall>(e, t, t') \<in> set evs.
       \<not> is_directory e \<and> endswith (src_path e) ''.swift'' \<and> \<not> py_in ''/.'' (src_path e) \<and>
       t0 \<le> t \<and> t \<le> t0 + 1/5 \<and> t0 \<le> t' \<and> t' \<le> t0 + 1/5)
    \<longrightarrow> snd (dispatch w evs) = 1)"
proof (intro conjI impI)
  show "debounce_seconds w \<le> now - last_build w" if "snd (on_modified w event now now')"
    using that by (simp add: on_modified_accepts should_trigger_build_iff)
  show "fst (on_modified w event now now') = w\<lparr>last_build := now'\<rparr>"
    if "snd (on_modified w event now now')"
    using that by (simp add: on_modified_state)
  show "fst (on_modified w event now now') = w" if "\<not> snd (on_modified w event now now')"
    using that by (simp add: on_modified_state)
  show "\<not> snd (on_modified w event now now')" if "now - last_build w < debounce_seconds w"
    using that by (simp add: on_modified_accepts should_trigger_build_iff)
next
  assume a: "evs \<noteq> [] \<and> debounce_seconds w = 1 \<and> 1 \<le> t0 - last_build w \<and>
    (\<forall>(e, t, t') \<in> set evs.
       \<not> is_directory e \<and> endswith (src_path e) ''.swift'' \<and> \<not> py_in ''/.'' (src_path e) \<and>
       t0 \<le> t \<and> t \<le> t0 + 1/5 \<and> t0 \<le> t' \<and> t' \<le> t0 + 1/5)"
  then obtain e t t' rest where evs: "evs = (e, t, t') # rest" by (cases evs) auto
  from a evs have first: "snd (on_modified w e t t')"
    by (simp add: on_modified_accepts should_trigger_build_iff)
  then have w1: "fst (on_modified w e t t') = w\<lparr>last_build := t'\<rparr>"
    by (simp add: on_modified_state)
  have "\<forall>(event, now, now') \<in> set rest.
      now - last_build (w\<lparr>last_build := t'\<rparr>) < debounce_seconds (w\<lparr>last_build := t'\<rparr>)"
    using a evs by auto
  then have "dispatch (w\<lparr>last_build := t'\<rparr>) rest = (w\<lparr>last_build := t'\<rparr>, 0)"
    by (rule dispatch_closed_gate)
  with first w1 evs show "snd (dispatch w evs) = 1"
    by (simp add: dispatch_Cons del: dispatch.simps)
qed

theorem debounce_gate_is_global_witness:
  "snd (dispatch SourceWatcher_init five_saves) = 1"
proof -
  have h: "five_saves \<noteq> [] \<and>
    debounce_seconds SourceWatcher_init = 1 \<and>
    1 \<le> 1700000000 - last_build SourceWatcher_init \<and>
    (\<forall>(e, t, t') \<in> set five_saves.
       \<not> is_directory e \<and> endswith (src_path e) ''.swift'' \<and> \<not> py_in ''/.'' (src_path e) \<and>
       1700000000 \<le> t \<and> t \<le> 1700000000 + 1/5 \<and> 1700000000 \<le> t' \<and> t' \<le> 1700000000 + 1/5)"
    by (simp add: five_saves_def SourceWatcher_init_def modified_def created_def endswith_def
        py_in_def suffix_to_prefix sublist_code)
  from debounce_gate_is_global
    [where w = SourceWatcher_init and ?t0.0 = 1700000000,
      THEN conjunct2, THEN conjunct2, THEN conjunct2, THEN mp, OF h]
  show ?thesis .
qed

section \<open>Properties of the reload script\<close>

lemma observe_baseline:
  "observe (Some b) rest = map (\<lambda>h. h \<noteq> None \<and> h \<noteq> Some [] \<and> h \<noteq> Some b) rest"
proof (induction rest)
  case Nil
  then show ?case by simp
next
  case (Cons h rest)
  have "checkForUpdates (Some b) h = (Some b, h \<noteq> None \<and> h \<noteq> Some [] \<and> h \<noteq> Some b)"
    by (cases h) (simp_all add: checkForUpdates_def truthy_def)
  with Cons.IH show ?case by simp
qed

text \<open>
  Claim C6, as amended. While \<open>lastHash\<close> is \<open>null\<close>, as it is at the first observation,
  the observed fingerprint is recorded and nothing is reloaded. Once a fingerprint is
  recorded, an observation calls for a reload exactly when it is not \<open>null\<close>, not the
  empty string, and differs from the recorded one; the baseline stays. So after a first
  observation of a fingerprint every later observation is compared with it, and after a
  first observation of \<open>null\<close> the script goes on as from its start.
\<close>

theorem reload_only_against_recorded_baseline:
  "checkForUpdates None wasm_hash = (wasm_hash, False) \<and>
   checkForUpdates (Some b) wasm_hash =
     (Some b, wasm_hash \<noteq> None \<and> wasm_hash \<noteq> Some [] \<and> wasm_hash \<noteq> Some b) \<and>
   observe None (Some b # rest) =
     False # map (\<lambda>h. h \<noteq> None \<and> h \<noteq> Some [] \<and> h \<noteq> Some b) rest \<and>
   observe None (None # rest) = False # observe None rest"
proof (intro conjI)
  show "checkForUpdates None wasm_hash = (wasm_hash, False)"
    by (simp add: checkForUpdates_def)
  show "checkForUpdates (Some b) wasm_hash =
     (Some b, wasm_hash \<noteq> None \<and> wasm_hash \<noteq> Some [] \<and> wasm_hash \<noteq> Some b)"
    by (cases wasm_hash) (simp_all add: checkForUpdates_def truthy_def)
  have first: "checkForUpdates None h = (h, False)" for h
    by (simp add: checkForUpdates_def)
  show "observe None (Some b # rest) =
     False # map (\<lambda>h. h \<noteq> None \<and> h \<noteq> Some [] \<and> h \<noteq> Some b) rest"
    by (simp add: first observe_baseline)
  show "observe None (None # rest) = False # observe None rest"
    by (simp add: first)
qed

text \<open>
  Claim C6 as stated fails when the first observation is \<open>null\<close>: the second observation
  is a fingerprint, differs from the baseline \<open>null\<close>, and is recorded without a reload.
\<close>

theorem reload_missed_after_null_baseline:
  "observe None [None, Some ''5d41402abc4b2a76b9719d911017c592''] = [False, False]"
  by (simp add: checkForUpdates_def truthy_def)

section \<open>Properties of the response headers\<close>

text \<open>
  Claim C9, as amended. Both servers give a response of type \<open>application/wasm\<close> the
  three no-cache headers and leave them alone on any other type. The dev server sets
  \<open>Access-Control-Allow-Origin: *\<close> on every response; the static server leaves that
  header as it finds it.
\<close>

theorem header_policy:
  "(mimetype r = ''application/wasm'' \<longrightarrow>
      headers (add_headers_dev r) ''Cache-Control'' = Some ''no-cache, no-store, must-revalidate'' \<and>
      headers (add_headers_dev r) ''Pragma'' = Some ''no-cache'' \<and>
      headers (add_headers_dev r) ''Expires'' = Some ''0'' \<and>
      headers (add_headers_serve r) ''Cache-Control'' = Some ''no-cache, no-store, must-revalidate'' \<and>
      headers (add_headers_serve r) ''Pragma'' = Some ''no-cache'' \<and>
      headers (add_headers_serve r) ''Expires'' = Some ''0'') \<and>
   headers (add_headers_dev r) ''Access-Control-Allow-Origin'' = Some ''*'' \<and>
   (mimetype r \<noteq> ''application/wasm'' \<longrightarrow>
      add_headers_dev r = r\<lparr>headers := (headers r)(''Access-Control-Allow-Origin'' \<mapsto> ''*'')\<rparr> \<and>
      add_headers_serve r = r) \<and>
   headers (add_headers_serve r) ''Access-Control-Allow-Origin''
     = headers r ''Access-Control-Allow-Origin''"
proof (cases "mimetype r = ''application/wasm''")
  case True
  then have dev: "headers (add_headers_dev r) =
      (headers r)(''Cache-Control'' \<mapsto> ''no-cache, no-store, must-revalidate'',
        ''Pragma'' \<mapsto> ''no-cache'', ''Expires'' \<mapsto> ''0'', ''Access-Control-Allow-Origin'' \<mapsto> ''*'')"
    by (simp add: add_headers_dev_def Let_def)
  from True have serve: "headers (add_headers_serve r) =
      (headers r)(''Cache-Control'' \<mapsto> ''no-cache, no-store, must-revalidate'',
        ''Pragma'' \<mapsto> ''no-cache'', ''Expires'' \<mapsto> ''0'')"
    by (simp add: add_headers_serve_def)
  show ?thesis unfolding dev serve using True by simp
next
  case False
  then have "add_headers_dev r = r\<lparr>headers := (headers r)(''Access-Control-Allow-Origin'' \<mapsto> ''*'')\<rparr>"
    and "add_headers_serve r = r"
    by (simp_all add: add_headers_dev_def add_headers_serve_def Let_def)
  with False show ?thesis by simp
qed

theorem header_policy_witness:
  "headers (add_headers_dev \<lparr>mimetype = ''application/wasm'', headers = Map.empty\<rparr>) ''Cache-Control''
     = Some ''no-cache, no-store, must-revalidate'' \<and>
   headers (add_headers_serve \<lparr>mimetype = ''application/wasm'', headers = Map.empty\<rparr>) ''Expires''
     = Some ''0'' \<and>
   add_headers_serve \<lparr>mimetype = ''text/html'', headers = Map.empty\<rparr>
     = \<lparr>mimetype = ''text/html'', headers = Map.empty\<rparr>"
  using header_policy [of "\<lparr>mimetype = ''application/wasm'', headers = Map.empty\<rparr>"]
    header_policy [of "\<lparr>mimetype = ''text/html'', headers = Map.empty\<rparr>"]
  by simp

text \<open>
  Claim C9 as stated fails for \<^verbatim>\<open>raven_serve.py\<close>: its responses get no cross-origin
  header.
\<close>

theorem serve_has_no_cross_origin_header:
  "headers (add_headers_serve \<lparr>mimetype = ''text/html'', headers = Map.empty\<rparr>)
     ''Access-Control-Allow-Origin'' = None \<and>
   headers (add_headers_serve \<lparr>mimetype = ''application/wasm'', headers = Map.empty\<rparr>)
     ''Access-Control-Allow-Origin'' = None"
  by (simp add: add_headers_serve_def)

section \<open>Properties of the script injection\<close>

text \<open>
  Where the old text occurs, the result of a replacement contains the new text; so an
  injection leaves the marker of the script in the page.
\<close>

lemma py_replace_contains_new:
  "old \<noteq> [] \<Longrightarrow> sublist old s \<Longrightarrow> sublist new (py_replace old new s)"
proof (induction old new s rule: py_replace.induct)
  case (1 old new)
  then show ?case by simp
next
  case (2 old new c cs)
  show ?case
  proof (cases "prefix old (c # cs)")
    case True
    with "2.prems" show ?thesis by simp
  next
    case False
    with "2.prems" have "sublist old cs" by (simp add: sublist_Cons_right)
    with "2.prems" False have "sublist new (py_replace old new cs)" by (intro "2.IH"(3)) simp_all
    then have "sublist new (c # py_replace old new cs)" by (simp add: sublist_Cons_right)
    with "2.prems" False show ?thesis by simp
  qed
qed

lemma marker_in_script: "sublist ''raven-hot-reload'' script"
  unfolding script_def by (simp add: sublist_code)

lemma marker_in_hot_reload_script: "sublist ''raven-hot-reload'' hot_reload_script"
  unfolding hot_reload_script_def by (simp add: sublist_code)

lemma inject_marked:
  assumes "sublist ''raven-hot-reload'' scr"
  shows "case inject scr html of None \<Rightarrow> html = None
         | Some content \<Rightarrow> html \<noteq> None \<and>
             (py_in ''raven-hot-reload'' content \<or> (\<not> py_in ''</body>'' content \<and> html = Some content))"
proof (cases html)
  case None
  then show ?thesis by (simp add: inject_def)
next
  case (Some content)
  show ?thesis
  proof (cases "\<not> py_in ''raven-hot-reload'' content \<and> py_in ''</body>'' content")
    case False
    with Some show ?thesis by (auto simp: inject_def)
  next
    case True
    then have "sublist (scr @ [CHR 0x0A] @ ''</body>'')
        (py_replace ''</body>'' (scr @ [CHR 0x0A] @ ''</body>'') content)"
      by (intro py_replace_contains_new) (simp_all add: py_in_def)
    moreover have "sublist ''raven-hot-reload'' (scr @ [CHR 0x0A] @ ''</body>'')"
      using assms by (meson sublist_order.order_trans sublist_append_rightI)
    ultimately have "py_in ''raven-hot-reload''
        (py_replace ''</body>'' (scr @ [CHR 0x0A] @ ''</body>'') content)"
      unfolding py_in_def by (meson sublist_order.order_trans)
    with Some True show ?thesis by (simp add: inject_def)
  qed
qed

lemma inject_idem:
  assumes "sublist ''raven-hot-reload'' scr"
  shows "inject scr (inject scr html) = inject scr html"
  using inject_marked [OF assms, of html]
  by (auto simp: inject_def split: option.splits)

text \<open>
  Claim C10. A missing file stays missing; a text that already contains the marker, or
  that has no \<open></body>\<close>, is left as it is; and a second injection changes nothing, for
  the script of the CLI and for the script of the example alike.
\<close>

theorem inject_hot_reload_idempotent:
  "inject_hot_reload None = None \<and>
   (py_in ''raven-hot-reload'' content \<longrightarrow> inject_hot_reload (Some content) = Some content) \<and>
   (\<not> py_in ''</body>'' content \<longrightarrow> inject_hot_reload (Some content) = Some content) \<and>
   inject_hot_reload (inject_hot_reload html) = inject_hot_reload html \<and>
   inject_hot_reload_script None = None \<and>
   (py_in ''raven-hot-reload'' content \<longrightarrow> inject_hot_reload_script (Some content) = Some content) \<and>
   (\<not> py_in ''</body>'' content \<longrightarrow> inject_hot_reload_script (Some content) = Some content) \<and>
   inject_hot_reload_script (inject_hot_reload_script html) = inject_hot_reload_script html"
  using inject_idem [OF marker_in_script, of html]
    inject_idem [OF marker_in_hot_reload_script, of html]
  by (simp add: inject_hot_reload_def inject_hot_reload_script_def inject_def)

theorem inject_hot_reload_idempotent_witness:
  "py_in ''raven-hot-reload'' ''<body><script id=\"raven-hot-reload\"></script></body>'' \<and>
   inject_hot_reload (Some ''<body><script id=\"raven-hot-reload\"></script></body>'')
     = Some ''<body><script id=\"raven-hot-reload\"></script></body>'' \<and>
   \<not> py_in ''</body>'' ''<p>fragment</p>'' \<and>
   inject_hot_reload (Some ''<p>fragment</p>'') = Some ''<p>fragment</p>'' \<and>
   inject_hot_reload (Some ''<html><body><h1>App</h1></body></html>'')
     = Some (''<html><body><h1>App</h1>'' @ script @ [CHR 0x0A] @ ''</body></html>'') \<and>
   inject_hot_reload (inject_hot_reload (Some ''<html><body><h1>App</h1></body></html>''))
     = Some (''<html><body><h1>App</h1>'' @ script @ [CHR 0x0A] @ ''</body></html>'')"
proof -
  have a: "py_in ''raven-hot-reload'' ''<body><script id=\"raven-hot-reload\"></script></body>''"
    by (simp add: py_in_def sublist_code)
  have b: "\<not> py_in ''</body>'' ''<p>fragment</p>''"
    by (simp add: py_in_def sublist_code)
  have c: "inject_hot_reload (Some ''<html><body><h1>App</h1></body></html>'')
     = Some (''<html><body><h1>App</h1>'' @ script @ [CHR 0x0A] @ ''</body></html>'')"
    by (simp add: inject_hot_reload_def inject_def py_in_def sublist_code)
  show ?thesis
    using a b c
      inject_hot_reload_idempotent
        [of "''<body><script id=\"raven-hot-reload\"></script></body>''"
            "Some ''<html><body><h1>App</h1></body></html>''"]
      inject_hot_reload_idempotent [of "''<p>fragment</p>''" None]
    by simp
qed

section \<open>Properties of the error excerpt\<close>

text \<open>
  The pieces of \<open>split_nl\<close> are the lines: put back together with a line feed before
  each, they give the text with a line feed before it, and no piece contains a line
  feed. A text contains a word in lower case exactly when it contains some spelling of
  it, and the decimal text of a count reads back as the count.
\<close>

lemma split_nl_not_Nil [simp]: "split_nl s \<noteq> []"
  by (induction s) (auto split: list.splits)

lemma split_nl_pieces: "concat (map (\<lambda>l. CHR 0x0A # l) (split_nl s)) = CHR 0x0A # s"
  by (induction s) (auto split: list.splits)

lemma split_nl_no_newline: "l \<in> set (split_nl s) \<Longrightarrow> CHR 0x0A \<notin> set l"
  by (induction s arbitrary: l) (auto split: list.splits if_splits)

lemma sublist_map_iff: "sublist x (map f l) \<longleftrightarrow> (\<exists>u. sublist u l \<and> map f u = x)"
proof
  assume "sublist x (map f l)"
  then obtain ps ss where eq: "map f l = ps @ x @ ss" by (auto simp: sublist_def)
  define u where "u = take (length x) (drop (length ps) l)"
  have "map f u = take (length x) (drop (length ps) (map f l))"
    by (simp add: u_def take_map drop_map)
  also have "\<dots> = x" by (simp add: eq)
  finally have m: "map f u = x" .
  have "l = take (length ps) l @ u @ drop (length x) (drop (length ps) l)"
    unfolding u_def by (simp only: append_take_drop_id)
  then have "sublist u l" unfolding sublist_def by blast
  with m have "sublist u l \<and> map f u = x" by simp
  then show "\<exists>u. sublist u l \<and> map f u = x" by blast
next
  assume "\<exists>u. sublist u l \<and> map f u = x"
  then show "sublist x (map f l)" by (auto intro: map_mono_sublist)
qed

lemma str_nat_decodes: "foldl (\<lambda>a c. 10 * a + (of_char c - 48)) 0 (str_nat n) = n"
proof (induction n rule: str_nat.induct)
  case (1 n)
  show ?case
  proof (cases "n < 10")
    case True
    then show ?thesis by (subst str_nat.simps) simp
  next
    case False
    have "(48 + n mod 10) mod 256 = 48 + n mod 10"
      by (rule mod_less) (simp add: less_le_trans [OF add_strict_left_mono [OF mod_less_divisor [of 10 n]]])
    with False "1.IH" show ?thesis by (subst str_nat.simps) simp
  qed
qed

text \<open>
  Claim C8, as amended. The error lines are the lines of the captured text that contain
  \<open>error:\<close> in some spelling of upper and lower case. The dev loop prints the first
  five, and after them one line with the number of the others when there are more than
  five. The one-shot build prints the first ten and nothing else; with \<open>--verbose\<close>,
  or with nothing captured, it prints nothing.
\<close>

theorem error_excerpt:
  "(line \<in> set (error_lines stderr) \<longleftrightarrow>
      line \<in> set (split_nl stderr) \<and> (\<exists>u. sublist u line \<and> lower u = ''error:'')) \<and>
   take 5 (dev_error_report stderr) = map (\<lambda>e. ''  '' @ e) (take 5 (error_lines stderr)) \<and>
   drop 5 (dev_error_report stderr) =
     (if 5 < length (error_lines stderr)
      then [''  ... and '' @ str_nat (length (error_lines stderr) - 5) @ '' more errors'']
      else []) \<and>
   build_command_report False (Some stderr) = map (\<lambda>e. ''  '' @ e) (take 10 (error_lines stderr)) \<and>
   build_command_report True captured = [] \<and>
   build_command_report verbose None = [] \<and>
   length (build_command_report verbose captured) \<le> 10"
proof (intro conjI)
  show "line \<in> set (error_lines stderr) \<longleftrightarrow>
      line \<in> set (split_nl stderr) \<and> (\<exists>u. sublist u line \<and> lower u = ''error:'')"
    by (simp add: error_lines_def py_in_def lower_def sublist_map_iff)
  show "take 5 (dev_error_report stderr) = map (\<lambda>e. ''  '' @ e) (take 5 (error_lines stderr))"
    by (simp add: dev_error_report_def Let_def)
  show "drop 5 (dev_error_report stderr) =
     (if 5 < length (error_lines stderr)
      then [''  ... and '' @ str_nat (length (error_lines stderr) - 5) @ '' more errors'']
      else [])"
    by (simp add: dev_error_report_def Let_def)
  have "error_lines [] = []" by (simp add: error_lines_def py_in_def lower_def)
  then show "build_command_report False (Some stderr)
      = map (\<lambda>e. ''  '' @ e) (take 10 (error_lines stderr))"
    by (cases "stderr = []") (simp_all add: build_command_report_def)
  show "build_command_report True captured = []"
    by (simp add: build_command_report_def split: option.splits)
  show "build_command_report verbose None = []"
    by (simp add: build_command_report_def)
  show "length (build_command_report verbose captured) \<le> 10"
    by (simp add: build_command_report_def split: option.splits)
qed

lemma error_lines_eleven:
  "error_lines eleven_errors =
     [''a.swift:1: error: e1'', ''a.swift:2: error: e2'', ''a.swift:4: error: e3'',
      ''a.swift:5: error: e4'', ''a.swift:6: error: e5'', ''a.swift:7: error: e6'',
      ''a.swift:8: error: e7'', ''a.swift:9: error: e8'', ''b.swift:1: error: e9'',
      ''b.swift:2: error: e10'', ''b.swift:3: error: e11'']"
  by (simp add: eleven_errors_def error_lines_def py_in_def lower_def lower_char_def
        char_of_def bit_0 sublist_code)

lemma error_lines_seven:
  "error_lines seven_errors =
     [''error: 1'', ''Error: 2'', ''ERROR: 3'', ''x: error: 4'', ''fatal eRRoR: 5'',
      ''error: 6'', ''error: 7'']"
  by (simp add: seven_errors_def error_lines_def py_in_def lower_def lower_char_def
        char_of_def bit_0 sublist_code)

theorem error_excerpt_witness:
  "dev_error_report seven_errors =
     [''  error: 1'', ''  Error: 2'', ''  ERROR: 3'', ''  x: error: 4'', ''  fatal eRRoR: 5'',
      ''  ... and 2 more errors''] \<and>
   build_command_report False (Some seven_errors) =
     [''  error: 1'', ''  Error: 2'', ''  ERROR: 3'', ''  x: error: 4'', ''  fatal eRRoR: 5'',
      ''  error: 6'', ''  error: 7'']"
proof -
  have "dev_error_report seven_errors
      = take 5 (dev_error_report seven_errors) @ drop 5 (dev_error_report seven_errors)"
    by simp
  then show ?thesis
    using error_excerpt [of undefined seven_errors undefined undefined]
    by (simp add: error_lines_seven str_nat.simps char_of_def bit_0)
qed

text \<open>
  Claim C8 as stated fails for the one-shot build: of eleven error lines it prints the
  first ten, and no line counts the eleventh.
\<close>

theorem one_shot_build_prints_no_count:
  "error_lines eleven_errors =
     [''a.swift:1: error: e1'', ''a.swift:2: error: e2'', ''a.swift:4: error: e3'',
      ''a.swift:5: error: e4'', ''a.swift:6: error: e5'', ''a.swift:7: error: e6'',
      ''a.swift:8: error: e7'', ''a.swift:9: error: e8'', ''b.swift:1: error: e9'',
      ''b.swift:2: error: e10'', ''b.swift:3: error: e11''] \<and>
   build_command_report False (Some eleven_errors) =
     [''  a.swift:1: error: e1'', ''  a.swift:2: error: e2'', ''  a.swift:4: error: e3'',
      ''  a.swift:5: error: e4'', ''  a.swift:6: error: e5'', ''  a.swift:7: error: e6'',
      ''  a.swift:8: error: e7'', ''  a.swift:9: error: e8'', ''  b.swift:1: error: e9'',
      ''  b.swift:2: error: e10'']"
proof -
  have "eleven_errors \<noteq> []" by (simp add: eleven_errors_def)
  then show ?thesis
    by (simp add: build_command_report_def error_lines_eleven)
qed

end
